theory Spec2Isabelle
  imports Complex_Main
begin

section \<open>Errors\<close>

text \<open>
  Every exception the walker can meet is a value. Functions that can raise return
  \<open>error + 'a\<close>, with \<open>Inl\<close> for the exception.
\<close>

datatype error =
    ValueError
  | IndexError
  | KeyError
  | FileNotFoundError
  | OSError
  | EncodeError

section \<open>The frame sampler: \<open>np.linspace(0, total_frames - 1, frame_count, dtype=int)\<close>\<close>

text \<open>
  \<open>linspace\<close> follows NumPy's \<open>linspace\<close> with \<open>endpoint=True\<close> and an integer
  \<open>dtype\<close>: a negative \<open>num\<close> raises \<open>ValueError\<close>; \<open>div = num - 1\<close>;
  \<open>y = arange(0, num)\<close>; with \<open>div > 0\<close> the step is \<open>delta / div\<close> and \<open>y\<close> is
  \<open>y * step\<close> (or \<open>(y / div) * delta\<close> when the step is zero), otherwise \<open>y * delta\<close>;
  then \<open>start\<close> is added, the last element is overwritten by \<open>stop\<close> when \<open>num > 1\<close>, and
  every element is rounded down. NumPy computes \<open>y\<close> in 64-bit floating point; here the
  arithmetic is exact, over the rationals.
\<close>

definition linspace :: "int \<Rightarrow> int \<Rightarrow> int \<Rightarrow> error + int list" where
  "linspace start stop num =
    (if num < 0 then Inl ValueError
     else
       let n = nat num;
           dv = num - 1;
           delta = (of_int stop - of_int start :: rat);
           y = map (\<lambda>i. (of_nat i :: rat)) [0..<n];
           y1 = (if 0 < dv then
                   (let step = delta / of_int dv
                    in if step = 0 then map (\<lambda>v. (v / of_int dv) * delta) y
                       else map (\<lambda>v. v * step) y)
                 else map (\<lambda>v. v * delta) y);
           y2 = map (\<lambda>v. v + of_int start) y1;
           y3 = (if 1 < num then y2[n - 1 := of_int stop] else y2)
       in Inr (map floor y3))"

text \<open>The sampling step of both walkers (lines 100-101 of processing.py).\<close>

definition sample_indices :: "nat \<Rightarrow> int \<Rightarrow> error + int list" where
  "sample_indices total_frames frame_count = linspace 0 (int total_frames - 1) frame_count"

section \<open>Strings and paths\<close>

text \<open>Python's \<open>pat in s\<close> on strings.\<close>

fun contains :: "string \<Rightarrow> string \<Rightarrow> bool" where
  "contains pat [] = (pat = [])"
| "contains pat (c # cs) = (take (length pat) (c # cs) = pat \<or> contains pat cs)"

text \<open>
  Python's \<open>s.replace(old, new)\<close>: the occurrences of \<open>old\<close> are found from the left
  and do not overlap; the text produced by a replacement is not scanned again. An empty
  \<open>old\<close> matches before every character and at the end.
\<close>

function str_replace :: "string \<Rightarrow> string \<Rightarrow> string \<Rightarrow> string" where
  "str_replace old new [] = (if old = [] then new else [])"
| "str_replace old new (c # cs) =
    (if old = [] then new @ c # str_replace old new cs
     else if take (length old) (c # cs) = old
          then new @ str_replace old new (drop (length old) (c # cs))
          else c # str_replace old new cs)"
  by pat_completeness auto
termination
  by (relation "measure (\<lambda>(old, new, s). length s)") auto

text \<open>Python's \<open>s.split(sep)\<close> for a one-character separator.\<close>

fun split :: "char \<Rightarrow> string \<Rightarrow> string list" where
  "split sep [] = [[]]"
| "split sep (c # cs) =
    (if c = sep then [] # split sep cs
     else (case split sep cs of [] \<Rightarrow> [[c]] | w # ws \<Rightarrow> (c # w) # ws))"

text \<open>\<open>os.path.join\<close> of two components and \<open>os.path.basename\<close>, on POSIX.\<close>

definition join :: "string \<Rightarrow> string \<Rightarrow> string" where
  "join a b =
    (if take 1 b = ''/'' then b
     else if a = [] \<or> last a = CHR ''/'' then a @ b
     else a @ ''/'' @ b)"

definition basename :: "string \<Rightarrow> string" where
  "basename p = rev (takeWhile (\<lambda>c. c \<noteq> CHR ''/'') (rev p))"

subsection \<open>Python's \<open>int\<close> on a string\<close>

text \<open>
  \<open>int(s)\<close> strips surrounding whitespace, accepts one optional sign and then decimal
  digits, where single underscores may stand between digits. Anything else raises
  \<open>ValueError\<close>, which is \<open>None\<close> here. Strings are byte strings in this model, so only
  the ASCII whitespace characters and the ASCII digits are recognised, and the
  interpreter's limit on the number of digits is not modelled.
\<close>

definition is_space :: "char \<Rightarrow> bool" where
  "is_space c = (c \<in> set [CHR 0x09, CHR 0x0A, CHR 0x0B, CHR 0x0C, CHR 0x0D,
                            CHR 0x1C, CHR 0x1D, CHR 0x1E, CHR 0x1F, CHR 0x20])"

definition strip :: "string \<Rightarrow> string" where
  "strip s = rev (dropWhile is_space (rev (dropWhile is_space s)))"

definition digit_val :: "char \<Rightarrow> nat option" where
  "digit_val c =
    (let n = (of_char c :: nat) in if 48 \<le> n \<and> n \<le> 57 then Some (n - 48) else None)"

text \<open>
  \<open>digits_value acc prev s\<close> reads the rest \<open>s\<close> of a digit string; \<open>acc\<close> is the value
  read so far and \<open>prev\<close> says that the character before \<open>s\<close> was a digit.
\<close>

fun digits_value :: "nat \<Rightarrow> bool \<Rightarrow> string \<Rightarrow> nat option" where
  "digits_value acc prev [] = (if prev then Some acc else None)"
| "digits_value acc prev (c # cs) =
    (if c = CHR ''_'' then (if prev \<and> cs \<noteq> [] then digits_value acc False cs else None)
     else (case digit_val c of
             None \<Rightarrow> None
           | Some d \<Rightarrow> digits_value (10 * acc + d) True cs))"

definition py_int :: "string \<Rightarrow> int option" where
  "py_int s =
    (case strip s of
       [] \<Rightarrow> None
     | c # cs \<Rightarrow>
        if c = CHR ''-'' then map_option (\<lambda>n. - int n) (digits_value 0 False cs)
        else if c = CHR ''+'' then map_option int (digits_value 0 False cs)
        else map_option int (digits_value 0 False (c # cs)))"



section \<open>Trial ordering\<close>

text \<open>
  Lines 79-80 of processing.py (64-66 of prepare\_Autonomous.py):
  \<^verbatim>\<open>sorted([k for k in file.keys() if 'Trial' in k], key=lambda x: int(x.replace('Trial', '')))\<close>.
  \<open>sorted\<close> computes the key of every element first, so one key that \<open>int\<close> rejects
  raises \<open>ValueError\<close>; the sort itself is stable.
\<close>

definition trial_index :: "string \<Rightarrow> int option" where
  "trial_index x = py_int (str_replace ''Trial'' [] x)"

definition sorted_trials :: "string list \<Rightarrow> error + string list" where
  "sorted_trials keys =
    (let ks = filter (contains ''Trial'') keys
     in case those (map (\<lambda>k. map_option (\<lambda>v. (v, k)) (trial_index k)) ks) of
          None \<Rightarrow> Inl ValueError
        | Some kvs \<Rightarrow> Inr (map snd (sort_key fst kvs)))"

section \<open>Data model\<close>

text \<open>
  A frame is its pixel values, flattened; an array is its shape, its element type and
  its frames along the first axis. Pixel values are rationals, so that the scaling of
  floating-point frames can be stated.
\<close>

datatype dtype = UInt8 | Float64 | OtherDtype

type_synonym frame = "rat list"

record ndarray =
  shape :: "nat list"
  dtype :: dtype
  frames_data :: "frame list"

text \<open>
  A data-container file is the list of its keys with the group under each key. A group
  has a \<open>data\<close> member or not; \<open>data\<close> maps a view key to a dataset, and reading a
  dataset (\<open>data[view][:]\<close>) yields an array or raises.
\<close>

type_synonym h5data = "string \<Rightarrow> (error + ndarray) option"

type_synonym h5file = "(string \<times> h5data option) list"

text \<open>
  What lies outside the repository is a parameter: opening a container, the two video
  writers, and OpenCV's resize and colour conversion. A writer's outcome says whether it
  raised and whether a file stands at the output path afterwards.
  \<^item> \<open>imageio_writer\<close> stands for lines 60-63 (\<open>get_writer\<close>, \<open>append_data\<close>, \<open>close\<close>);
  \<^item> \<open>cv2_writer\<close> stands for lines 133-155: the codec chain, the per-frame writes and
    \<open>release\<close>. \<open>Cv2Done False\<close> is a writer that never opened: OpenCV then drops every
    frame silently.
\<close>

datatype imageio_outcome = ImageioOk | ImageioFail bool

datatype cv2_outcome = Cv2Done bool | Cv2Raise bool

record world =
  h5py_File :: "string \<Rightarrow> error + h5file"
  imageio_writer :: "string \<Rightarrow> ndarray \<Rightarrow> imageio_outcome"
  cv2_writer :: "string \<Rightarrow> ndarray \<Rightarrow> cv2_outcome"
  cv2_resize :: "frame \<Rightarrow> nat \<times> nat \<Rightarrow> frame"
  cv2_cvtColor :: "frame \<Rightarrow> frame"
  extract_tarfile :: "string \<Rightarrow> error + string option"
  find_h5_files :: "string \<Rightarrow> string list"

text \<open>The arguments that \<open>process_tarfile\<close> hands on to every \<open>process_h5_file\<close> call.\<close>

record args =
  task_name :: string
  output_folder :: string
  frame_count :: int
  max_pairs :: int

text \<open>
  The state is the output tree and a trace. \<open>fs\<close> maps a directory path to its listing
  (\<open>None\<close>: no such directory). The trace records, in order, what the run does that can
  be observed: \<open>Opened\<close> is the call of \<open>h5py.File\<close>, \<open>Visit\<close> the entry into the body of
  the trial loop, \<open>Sampled\<close> the computation of the indices and the selection of the
  frames, \<open>ImageioWrite\<close> and \<open>Cv2Write\<close> the frames handed to a writer, \<open>JsonWrite\<close> the
  writing of the metadata file, \<open>Removed\<close> a removal, and the \<open>Print\<close> events the messages
  printed.
\<close>

datatype event =
    Opened string
  | Visit string
  | Sampled string string "int list"
  | PrintSkipping string int
  | ImageioWrite string ndarray
  | PrintImageioError error
  | Cv2Write string ndarray
  | JsonWrite string string
  | PrintAllReached
  | PrintErrorProcessing string error
  | PrintTraceback
  | PrintExtracting string
  | PrintFound nat
  | PrintNoFiles
  | PrintFailedExtract
  | Removed string

record state =
  fs :: "string \<Rightarrow> string list option"
  trace :: "event list"

definition log :: "event \<Rightarrow> state \<Rightarrow> state" where
  "log e st = st\<lparr>trace := trace st @ [e]\<rparr>"

definition ensure_dir :: "string \<Rightarrow> state \<Rightarrow> state" where
  "ensure_dir directory st =
    (if fs st directory \<noteq> None then st else st\<lparr>fs := (fs st)(directory \<mapsto> [])\<rparr>)"

definition listdir :: "string \<Rightarrow> state \<Rightarrow> error + string list" where
  "listdir directory st =
    (case fs st directory of None \<Rightarrow> Inl FileNotFoundError | Some l \<Rightarrow> Inr l)"

text \<open>
  Creating or overwriting the file \<open>name\<close> in \<open>directory\<close>. The walker writes only into
  a view folder it has just ensured, and its file names hold no path separator: they are
  built from a base name, an HDF5 key and a view name.
\<close>

definition write_file :: "string \<Rightarrow> string \<Rightarrow> state \<Rightarrow> state" where
  "write_file directory name st =
    (case fs st directory of
       None \<Rightarrow> st
     | Some l \<Rightarrow> if name \<in> set l then st else st\<lparr>fs := (fs st)(directory \<mapsto> l @ [name])\<rparr>)"

section \<open>The video materializer\<close>

text \<open>
  \<open>(frames * 255).astype(np.uint8)\<close>: the product is truncated towards zero and kept
  modulo 256 (what NumPy does out of range is platform dependent; on values in \<open>[0, 1]\<close>
  nothing wraps).
\<close>

definition astype_uint8 :: "rat \<Rightarrow> rat" where
  "astype_uint8 v = of_int ((if v < 0 then \<lceil>v\<rceil> else \<lfloor>v\<rfloor>) mod 256)"

definition scale_to_uint8 :: "ndarray \<Rightarrow> ndarray" where
  "scale_to_uint8 a =
    a\<lparr>dtype := UInt8, frames_data := map (map (\<lambda>v. astype_uint8 (v * 255))) (frames_data a)\<rparr>"

definition round_up_16 :: "nat \<Rightarrow> nat" where
  "round_up_16 n = ((n + 15) div 16) * 16"

text \<open>
  \<open>adjust_dimensions_to_multiple_of_16\<close>: \<open>frames[0]\<close> raises on an empty array, and the
  unpacking of \<open>frames[0].shape\<close> into three names wants three dimensions.
\<close>

definition adjust_dimensions_to_multiple_of_16 :: "world \<Rightarrow> ndarray \<Rightarrow> error + ndarray" where
  "adjust_dimensions_to_multiple_of_16 w frames =
    (case frames_data frames of
       [] \<Rightarrow> Inl IndexError
     | _ # _ \<Rightarrow>
        (case shape frames of
           [n, height, width, channels] \<Rightarrow>
             let new_width = round_up_16 width; new_height = round_up_16 height
             in if width = new_width \<and> height = new_height then Inr frames
                else Inr (frames\<lparr>shape := [n, new_height, new_width, channels],
                            frames_data := map (\<lambda>f. cv2_resize w f (new_width, new_height))
                                             (frames_data frames)\<rparr>)
         | _ \<Rightarrow> Inl ValueError))"

text \<open>
  Lines 52-57: the frames that \<open>save_video_with_imageio\<close> hands to the imageio writer.
  Frames of any element type other than \<open>uint8\<close> are scaled by 255 and cast; then the
  dimensions are adjusted.
\<close>

definition imageio_frames :: "world \<Rightarrow> ndarray \<Rightarrow> error + ndarray" where
  "imageio_frames w frames =
    adjust_dimensions_to_multiple_of_16 w
      (if dtype frames \<noteq> UInt8 then scale_to_uint8 frames else frames)"

text \<open>
  \<open>save_video_with_imageio\<close> (lines 49-67). The output path is given as the folder and
  the file name that the caller joins. Every exception ends in the handler, which prints
  and returns \<open>False\<close>.
\<close>

definition save_video_with_imageio ::
  "world \<Rightarrow> ndarray \<Rightarrow> string \<Rightarrow> string \<Rightarrow> state \<Rightarrow> bool \<times> state" where
  "save_video_with_imageio w frames folder name st =
    (case imageio_frames w frames of
       Inl e \<Rightarrow> (False, log (PrintImageioError e) st)
     | Inr frames2 \<Rightarrow>
        (let output_path = join folder name;
             st1 = log (ImageioWrite output_path frames2) st
         in case imageio_writer w output_path frames2 of
              ImageioOk \<Rightarrow> (True, write_file folder name st1)
            | ImageioFail created \<Rightarrow>
                (False, log (PrintImageioError EncodeError)
                          (if created then write_file folder name st1 else st1))))"

text \<open>
  Lines 128-130 and 147-152: the frames that the OpenCV fallback hands to its writer.
  They are \<open>selected_frames\<close> as the walker holds them, each resized and converted from
  RGB to BGR; \<open>selected_frames[0]\<close> raises on an empty clip. The rebinding of \<open>frames\<close>
  inside \<open>save_video_with_imageio\<close> is local to that function.
\<close>

definition opencv_frames :: "world \<Rightarrow> ndarray \<Rightarrow> error + ndarray" where
  "opencv_frames w selected_frames =
    (case frames_data selected_frames of
       [] \<Rightarrow> Inl IndexError
     | _ # _ \<Rightarrow>
        (case shape selected_frames of
           n # height # width # rest \<Rightarrow>
             let new_width = round_up_16 width; new_height = round_up_16 height
             in Inr (selected_frames\<lparr>shape := n # new_height # new_width # rest,
                  frames_data := map (\<lambda>f. cv2_cvtColor w (cv2_resize w f (new_width, new_height)))
                                   (frames_data selected_frames)\<rparr>)
         | _ \<Rightarrow> Inl ValueError))"

text \<open>
  The OpenCV fallback (lines 126-155). Nothing here is inside a handler but the creation
  of the writer, whose outcome \<open>cv2_writer\<close> gives.
\<close>

definition opencv_fallback ::
  "world \<Rightarrow> ndarray \<Rightarrow> string \<Rightarrow> string \<Rightarrow> state \<Rightarrow> (error + unit) \<times> state" where
  "opencv_fallback w selected_frames folder name st =
    (case opencv_frames w selected_frames of
       Inl e \<Rightarrow> (Inl e, st)
     | Inr written \<Rightarrow>
        (let video_path = join folder name;
             st1 = log (Cv2Write video_path written) st
         in case cv2_writer w video_path written of
              Cv2Done created \<Rightarrow>
                (Inr (), if created then write_file folder name st1 else st1)
            | Cv2Raise created \<Rightarrow>
                (Inl EncodeError, if created then write_file folder name st1 else st1)))"

section \<open>The quota-aware trial walker\<close>

definition rgb_views :: "string list" where
  "rgb_views = [''rgb_left'', ''rgb_right'', ''rgb_top'', ''rgb_wrist'']"

text \<open>\<open>view.split('_')[1]\<close>.\<close>

definition view_name_of :: "string \<Rightarrow> error + string" where
  "view_name_of view = (case split CHR ''_'' view of _ # v # _ \<Rightarrow> Inr v | _ \<Rightarrow> Inl IndexError)"

text \<open>
  \<open>frames[indices]\<close>: indexing along the first axis with an integer array. A negative
  index counts from the end; an index out of range raises.
\<close>

definition take_frames :: "ndarray \<Rightarrow> int list \<Rightarrow> error + ndarray" where
  "take_frames frames indices =
    (let n = int (length (frames_data frames))
     in if list_all (\<lambda>i. - n \<le> i \<and> i < n) indices
        then Inr (frames\<lparr>shape := length indices # tl (shape frames),
                    frames_data := map (\<lambda>i. frames_data frames ! nat (if i < 0 then i + n else i))
                                     indices\<rparr>)
        else Inl IndexError)"

text \<open>
  Lines 119-163: encode the clip, first with imageio and with OpenCV when that returned
  \<open>False\<close>, then write the JSON file. An exception of the fallback leaves this block
  before the JSON file is written.
\<close>

definition produce_pair ::
  "world \<Rightarrow> args \<Rightarrow> ndarray \<Rightarrow> string \<Rightarrow> string \<Rightarrow> state \<Rightarrow> (error + unit) \<times> state" where
  "produce_pair w a selected_frames view_folder stem st =
    (let video_name = stem @ ''.mp4'';
         (ok, st1) = save_video_with_imageio w selected_frames view_folder video_name st
     in case (if ok then (Inr (), st1)
              else opencv_fallback w selected_frames view_folder video_name st1) of
          (Inl e, st2) \<Rightarrow> (Inl e, st2)
        | (Inr u, st2) \<Rightarrow>
            (let json_name = stem @ ''.json''
             in (Inr (), log (JsonWrite (join view_folder json_name) (task_name a))
                           (write_file view_folder json_name st2))))"

text \<open>
  Line 96: \<open>len(frames.shape) != 4 or frames.shape[0] < frame_count or frames.shape[3] != 3\<close>.
\<close>

definition skip_stream :: "args \<Rightarrow> ndarray \<Rightarrow> bool" where
  "skip_stream a frames =
    (case shape frames of
       [total_frames, height, width, channels] \<Rightarrow>
         int total_frames < frame_count a \<or> channels \<noteq> 3
     | _ \<Rightarrow> True)"

text \<open>Lines 100-102: the indices and the selected frames.\<close>

definition select_frames :: "args \<Rightarrow> ndarray \<Rightarrow> error + int list \<times> ndarray" where
  "select_frames a frames =
    (case shape frames of
       [] \<Rightarrow> Inl IndexError
     | total_frames # _ \<Rightarrow>
        (case sample_indices total_frames (frame_count a) of
           Inl e \<Rightarrow> Inl e
         | Inr indices \<Rightarrow>
            (case take_frames frames indices of
               Inl e \<Rightarrow> Inl e
             | Inr selected_frames \<Rightarrow> Inr (indices, selected_frames))))"

text \<open>
  Lines 104-163: the names, the view folder, the check of the limit against the live
  listing of the folder, and the production of the pair.
\<close>

definition store_view ::
  "world \<Rightarrow> args \<Rightarrow> string \<Rightarrow> string \<Rightarrow> string \<Rightarrow> ndarray \<Rightarrow> state \<Rightarrow> (error + unit) \<times> state" where
  "store_view w a base_filename trial view selected_frames st =
    (case view_name_of view of
       Inl e \<Rightarrow> (Inl e, st)
     | Inr view_name \<Rightarrow>
        (let stem = base_filename @ ''-'' @ trial @ ''-'' @ view_name;
             view_folder = join (output_folder a) view_name;
             st1 = ensure_dir view_folder st
         in case listdir view_folder st1 of
              Inl e \<Rightarrow> (Inl e, st1)
            | Inr existing_files \<Rightarrow>
               if 2 * max_pairs a \<le> int (length existing_files)
               then (Inr (), log (PrintSkipping view_name (int (length existing_files) div 2)) st1)
               else produce_pair w a selected_frames view_folder stem st1))"

text \<open>
  The body of the loop over the views (lines 91-163). The order is the source's: the
  view is looked up and read, its shape is checked, the indices are computed and the
  frames selected, and only then the folder is listed and compared with the limit.
\<close>

definition process_view ::
  "world \<Rightarrow> args \<Rightarrow> string \<Rightarrow> string \<Rightarrow> h5data \<Rightarrow> string \<Rightarrow> state \<Rightarrow> (error + unit) \<times> state" where
  "process_view w a base_filename trial data view st =
    (case data view of
       None \<Rightarrow> (Inr (), st)
     | Some (Inl e) \<Rightarrow> (Inl e, st)
     | Some (Inr frames) \<Rightarrow>
        if skip_stream a frames then (Inr (), st)
        else
          (case select_frames a frames of
             Inl e \<Rightarrow> (Inl e, st)
           | Inr (indices, selected_frames) \<Rightarrow>
               store_view w a base_filename trial view selected_frames
                 (log (Sampled trial view indices) st)))"

fun views_loop ::
  "world \<Rightarrow> args \<Rightarrow> string \<Rightarrow> string \<Rightarrow> h5data \<Rightarrow> string list \<Rightarrow> state \<Rightarrow> (error + unit) \<times> state" where
  "views_loop w a base_filename trial data [] st = (Inr (), st)"
| "views_loop w a base_filename trial data (view # views) st =
    (case process_view w a base_filename trial data view st of
       (Inl e, st1) \<Rightarrow> (Inl e, st1)
     | (Inr u, st1) \<Rightarrow> views_loop w a base_filename trial data views st1)"

text \<open>
  Lines 166-172: \<open>all_done\<close> stays \<open>True\<close> when every view folder lists at least
  \<open>2 * max_pairs\<close> files; the loop leaves at the first folder that lists fewer, and
  listing a folder that does not exist raises.
\<close>

fun all_done :: "args \<Rightarrow> string list \<Rightarrow> state \<Rightarrow> error + bool" where
  "all_done a [] st = Inr True"
| "all_done a (view # views) st =
    (case view_name_of view of
       Inl e \<Rightarrow> Inl e
     | Inr view_name \<Rightarrow>
        (case listdir (join (output_folder a) view_name) st of
           Inl e \<Rightarrow> Inl e
         | Inr files \<Rightarrow>
            if int (length files) < 2 * max_pairs a then Inr False else all_done a views st))"

text \<open>
  The loop over the trials (lines 82-176). Its result is the value that
  \<open>process_h5_file\<close> returns when no exception escapes: \<open>False\<close> from inside the loop
  when all views reached the limit, \<open>True\<close> after the last trial.
\<close>

fun trials_loop ::
  "world \<Rightarrow> args \<Rightarrow> string \<Rightarrow> h5file \<Rightarrow> string list \<Rightarrow> state \<Rightarrow> (error + bool) \<times> state" where
  "trials_loop w a base_filename file [] st = (Inr True, st)"
| "trials_loop w a base_filename file (trial # trials) st =
    (let st0 = log (Visit trial) st
     in case map_of file trial of
          None \<Rightarrow> (Inl KeyError, st0)
        | Some None \<Rightarrow> trials_loop w a base_filename file trials st0
        | Some (Some data) \<Rightarrow>
           (case views_loop w a base_filename trial data rgb_views st0 of
              (Inl e, st1) \<Rightarrow> (Inl e, st1)
            | (Inr u, st1) \<Rightarrow>
               (case all_done a rgb_views st1 of
                  Inl e \<Rightarrow> (Inl e, st1)
                | Inr True \<Rightarrow> (Inr False, log PrintAllReached st1)
                | Inr False \<Rightarrow> trials_loop w a base_filename file trials st1)))"

text \<open>
  \<open>process_h5_file\<close> (lines 69-182). The \<open>try\<close> spans the opening of the file, the
  sorting of the keys and the loop; its handler prints the error and the traceback and
  returns \<open>True\<close>.
\<close>

definition walk_file ::
  "world \<Rightarrow> args \<Rightarrow> string \<Rightarrow> state \<Rightarrow> (error + bool) \<times> state" where
  "walk_file w a h5_path st =
    (let base_filename = str_replace ''.h5'' [] (basename h5_path);
         st0 = log (Opened h5_path) st
     in case h5py_File w h5_path of
          Inl e \<Rightarrow> (Inl e, st0)
        | Inr file \<Rightarrow>
           (case sorted_trials (map fst file) of
              Inl e \<Rightarrow> (Inl e, st0)
            | Inr trials \<Rightarrow> trials_loop w a base_filename file trials st0))"

definition process_h5_file :: "world \<Rightarrow> args \<Rightarrow> string \<Rightarrow> state \<Rightarrow> bool \<times> state" where
  "process_h5_file w a h5_path st =
    (case walk_file w a h5_path st of
       (Inr b, st1) \<Rightarrow> (b, st1)
     | (Inl e, st1) \<Rightarrow> (True, log PrintTraceback (log (PrintErrorProcessing h5_path e) st1)))"

section \<open>The driver\<close>

text \<open>Lines 208-211: the loop over the located files stops at the first \<open>False\<close>.\<close>

fun files_loop :: "world \<Rightarrow> args \<Rightarrow> string list \<Rightarrow> state \<Rightarrow> state" where
  "files_loop w a [] st = st"
| "files_loop w a (h5_file # h5_files) st =
    (case process_h5_file w a h5_file st of
       (cont, st1) \<Rightarrow> if \<not> cont then st1 else files_loop w a h5_files st1)"

definition view_dirs :: "string list" where
  "view_dirs = [''left'', ''right'', ''top'', ''wrist'']"

text \<open>\<open>process_tarfile\<close> (lines 184-224); an exception of the extraction is not handled here.\<close>

definition process_tarfile :: "world \<Rightarrow> args \<Rightarrow> string \<Rightarrow> state \<Rightarrow> (error + unit) \<times> state" where
  "process_tarfile w a tar_path st =
    (let st1 = ensure_dir (output_folder a) st;
         st2 = foldl (\<lambda>s view_dir. ensure_dir (join (output_folder a) view_dir) s) st1 view_dirs;
         st3 = log (PrintExtracting tar_path) st2
     in case extract_tarfile w tar_path of
          Inl e \<Rightarrow> (Inl e, st3)
        | Inr None \<Rightarrow> (Inr (), log PrintFailedExtract st3)
        | Inr (Some extracted_dir) \<Rightarrow>
           (let extracted_path = join ''.'' extracted_dir;
                h5_files = find_h5_files w extracted_path;
                st4 = (if h5_files \<noteq> []
                       then files_loop w a h5_files (log (PrintFound (length h5_files)) st3)
                       else log PrintNoFiles st3)
            in (Inr (), log (Removed tar_path) (log (Removed extracted_path) st4))))"

section \<open>Observations on inputs, traces and the output tree\<close>



text \<open>The trials whose loop body was entered, in the order of the trace.\<close>

fun visited :: "event list \<Rightarrow> string list" where
  "visited [] = []"
| "visited (Visit t # es) = t # visited es"
| "visited (e # es) = visited es"

text \<open>The files whose opening was attempted, in the order of the trace.\<close>

fun opened :: "event list \<Rightarrow> string list" where
  "opened [] = []"
| "opened (Opened p # es) = p # opened es"
| "opened (e # es) = opened es"

text \<open>The number of entries that a directory lists; a missing directory lists none.\<close>

definition dir_count :: "state \<Rightarrow> string \<Rightarrow> nat" where
  "dir_count st directory = (case fs st directory of None \<Rightarrow> 0 | Some l \<Rightarrow> length l)"

text \<open>
  A listing is paired when every \<open>.mp4\<close> entry has the \<open>.json\<close> entry of the same base
  name beside it, and every \<open>.json\<close> entry its \<open>.mp4\<close> entry.
\<close>

definition has_ext :: "string \<Rightarrow> string \<Rightarrow> bool" where
  "has_ext ext f = (length ext \<le> length f \<and> drop (length f - length ext) f = ext)"

definition stem_of :: "string \<Rightarrow> string \<Rightarrow> string" where
  "stem_of ext f = take (length f - length ext) f"

definition paired :: "string list \<Rightarrow> bool" where
  "paired l =
    list_all (\<lambda>f. (has_ext ''.mp4'' f \<longrightarrow> stem_of ''.mp4'' f @ ''.json'' \<in> set l) \<and>
                   (has_ext ''.json'' f \<longrightarrow> stem_of ''.json'' f @ ''.mp4'' \<in> set l)) l"

definition dir_paired :: "state \<Rightarrow> string \<Rightarrow> bool" where
  "dir_paired st directory = (case fs st directory of None \<Rightarrow> True | Some l \<Rightarrow> paired l)"

text \<open>
  A folder that holds complete pairs and nothing else: no name twice, every entry a video
  or a JSON file, and the listing paired.
\<close>

definition clean_listing :: "string list \<Rightarrow> bool" where
  "clean_listing l =
    (distinct l \<and> paired l \<and> list_all (\<lambda>f. has_ext ''.mp4'' f \<or> has_ext ''.json'' f) l)"

definition dir_clean :: "state \<Rightarrow> string \<Rightarrow> bool" where
  "dir_clean st directory = (case fs st directory of None \<Rightarrow> True | Some l \<Rightarrow> clean_listing l)"


text \<open>Every view folder of the task lists at least \<open>2 * max_pairs\<close> files.\<close>

definition saturated :: "args \<Rightarrow> state \<Rightarrow> bool" where
  "saturated a st =
    list_all (\<lambda>v. case fs st (join (output_folder a) v) of
                     None \<Rightarrow> False
                   | Some l \<Rightarrow> 2 * max_pairs a \<le> int (length l)) view_dirs"

section \<open>Concrete inputs\<close>

text \<open>
  A clip of two frames of one pixel each, and a container \<open>d/f.h5\<close> with the trials
  10, 2 and 1, where trial 2 has no \<open>data\<close> group and the others hold all four views.
  In \<open>demo_world\<close> every writer succeeds, and no other container opens.
\<close>

definition clip :: "dtype \<Rightarrow> rat \<Rightarrow> ndarray" where
  "clip t v = \<lparr>shape = [2, 1, 1, 3], dtype = t, frames_data = [[v, v, v], [v, v, v]]\<rparr>"

definition four_views :: h5data where
  "four_views =
    [''rgb_left'' \<mapsto> Inr (clip UInt8 7), ''rgb_right'' \<mapsto> Inr (clip UInt8 7),
     ''rgb_top'' \<mapsto> Inr (clip Float64 (1 / 2)), ''rgb_wrist'' \<mapsto> Inr (clip UInt8 7)]"

definition demo_file :: h5file where
  "demo_file = [(''Trial10'', Some four_views), (''Trial2'', None), (''Trial1'', Some four_views)]"

definition demo_world :: world where
  "demo_world =
    \<lparr>h5py_File = (\<lambda>p. if p = ''d/f.h5'' then Inr demo_file else Inl OSError),
     imageio_writer = (\<lambda>p f. ImageioOk),
     cv2_writer = (\<lambda>p f. Cv2Done True),
     cv2_resize = (\<lambda>f d. f),
     cv2_cvtColor = (\<lambda>f. f),
     extract_tarfile = (\<lambda>p. Inr (Some ''d'')),
     find_h5_files = (\<lambda>d. [''d/f.h5'', ''d/g.h5''])\<rparr>"

definition demo_args :: "int \<Rightarrow> args" where
  "demo_args limit = \<lparr>task_name = ''pick'', output_folder = ''out'', frame_count = 2, max_pairs = limit\<rparr>"

text \<open>The output tree with the four view folders, as \<open>process_tarfile\<close> prepares it.\<close>

definition fresh_state :: state where
  "fresh_state =
    \<lparr>fs = [''out'' \<mapsto> [], ''out/left'' \<mapsto> [], ''out/right'' \<mapsto> [], ''out/top'' \<mapsto> [],
           ''out/wrist'' \<mapsto> []],
     trace = []\<rparr>"




text \<open>The output tree when every view folder holds one pair already.\<close>

definition full_state :: state where
  "full_state =
    \<lparr>fs = [''out'' \<mapsto> [], ''out/left'' \<mapsto> [''a.mp4'', ''a.json''],
           ''out/right'' \<mapsto> [''a.mp4'', ''a.json''], ''out/top'' \<mapsto> [''a.mp4'', ''a.json''],
           ''out/wrist'' \<mapsto> [''a.mp4'', ''a.json'']],
     trace = []\<rparr>"

section \<open>The frame sampler's contract\<close>





section \<open>Decimal numerals and Python's \<open>int\<close>\<close>
















section \<open>Traces of the walker\<close>

lemma trace_log [simp]: "trace (log e st) = trace st @ [e]" by (simp add: log_def)
lemma fs_log [simp]: "fs (log e st) = fs st" by (simp add: log_def)
lemma trace_ensure_dir [simp]: "trace (ensure_dir d st) = trace st" by (simp add: ensure_dir_def)
lemma trace_write_file [simp]: "trace (write_file d n st) = trace st"
  by (simp add: write_file_def split: option.splits)

lemma fs_ensure_dir: "fs (ensure_dir d st) = (if fs st d = None then (fs st)(d \<mapsto> []) else fs st)"
  by (simp add: ensure_dir_def)

lemma fs_write_file:
  "fs (write_file d n st) =
     (case fs st d of None \<Rightarrow> fs st
      | Some l \<Rightarrow> if n \<in> set l then fs st else (fs st)(d \<mapsto> l @ [n]))"
  by (simp add: write_file_def split: option.splits)

lemma visited_append [simp]: "visited (xs @ ys) = visited xs @ visited ys"
  by (induction xs rule: visited.induct) auto

lemma opened_append [simp]: "opened (xs @ ys) = opened xs @ opened ys"
  by (induction xs rule: opened.induct) auto

lemma save_video_trace:
  "save_video_with_imageio w frames folder name st = (ok, st') \<Longrightarrow>
   \<exists>es. trace st' = trace st @ es \<and> visited es = [] \<and> opened es = []"
  by (auto simp: save_video_with_imageio_def Let_def split: sum.splits imageio_outcome.splits if_splits)

lemma opencv_fallback_trace:
  "opencv_fallback w frames folder name st = (r, st') \<Longrightarrow>
   \<exists>es. trace st' = trace st @ es \<and> visited es = [] \<and> opened es = []"
  by (auto simp: opencv_fallback_def Let_def split: sum.splits cv2_outcome.splits if_splits)

lemma produce_pair_trace:
  assumes "produce_pair w a sel folder stem st = (r, st')"
  shows "\<exists>es. trace st' = trace st @ es \<and> visited es = [] \<and> opened es = []"
proof -
  obtain ok st1 where s1: "save_video_with_imageio w sel folder (stem @ ''.mp4'') st = (ok, st1)"
    by (cases "save_video_with_imageio w sel folder (stem @ ''.mp4'') st") auto
  from save_video_trace[OF s1] obtain es1 where
    e1: "trace st1 = trace st @ es1" "visited es1 = []" "opened es1 = []" by auto
  show ?thesis
  proof (cases ok)
    case True
    with assms s1 e1 show ?thesis by (auto simp: produce_pair_def Let_def)
  next
    case False
    obtain r2 st2 where s2: "opencv_fallback w sel folder (stem @ ''.mp4'') st1 = (r2, st2)"
      by (cases "opencv_fallback w sel folder (stem @ ''.mp4'') st1") auto
    from opencv_fallback_trace[OF s2] obtain es2 where
      e2: "trace st2 = trace st1 @ es2" "visited es2 = []" "opened es2 = []" by auto
    from assms s1 s2 False e1 e2 show ?thesis
      by (cases r2) (auto simp: produce_pair_def Let_def)
  qed
qed


lemma listdir_ensure_dir:
  "listdir d (ensure_dir d st) = Inr (case fs st d of None \<Rightarrow> [] | Some l \<Rightarrow> l)"
  by (auto simp: listdir_def ensure_dir_def split: option.splits)

lemma store_view_cases:
  assumes "store_view w a base trial view sel st = (r, st')"
  obtains
    (name) e where "r = Inl e" "st' = st"
  | (quota) vn l where
      "view_name_of view = Inr vn"
      "listdir (join (output_folder a) vn) (ensure_dir (join (output_folder a) vn) st) = Inr l"
      "2 * max_pairs a \<le> int (length l)"
      "r = Inr ()"
      "st' = log (PrintSkipping vn (int (length l) div 2)) (ensure_dir (join (output_folder a) vn) st)"
  | (produce) vn l where
      "view_name_of view = Inr vn"
      "listdir (join (output_folder a) vn) (ensure_dir (join (output_folder a) vn) st) = Inr l"
      "int (length l) < 2 * max_pairs a"
      "produce_pair w a sel (join (output_folder a) vn) (base @ ''-'' @ trial @ ''-'' @ vn)
         (ensure_dir (join (output_folder a) vn) st) = (r, st')"
  using assms unfolding store_view_def Let_def
  by (auto split: sum.splits if_splits simp: listdir_ensure_dir)

lemma process_view_cases:
  assumes "process_view w a base trial data view st = (r, st')"
  obtains
    (skip) "r = Inr ()" "st' = st"
  | (early) e where "r = Inl e" "st' = st"
  | (store) frames idx sel where
      "data view = Some (Inr frames)" "\<not> skip_stream a frames"
      "select_frames a frames = Inr (idx, sel)"
      "store_view w a base trial view sel (log (Sampled trial view idx) st) = (r, st')"
  using assms unfolding process_view_def
  by (auto split: option.splits sum.splits if_splits prod.splits)


lemma store_view_trace:
  assumes "store_view w a base trial view sel st = (r, st')"
  shows "\<exists>es. trace st' = trace st @ es \<and> visited es = [] \<and> opened es = []"
  using assms
proof (cases rule: store_view_cases)
  case (produce vn l)
  from produce_pair_trace[OF produce(4)] show ?thesis by simp
qed auto

lemma process_view_trace:
  assumes "process_view w a base trial data view st = (r, st')"
  shows "\<exists>es. trace st' = trace st @ es \<and> visited es = [] \<and> opened es = []"
  using assms
proof (cases rule: process_view_cases)
  case (store frames idx sel)
  from store_view_trace[OF store(4)] show ?thesis by auto
qed auto

lemma views_loop_trace:
  "views_loop w a base trial data views st = (r, st') \<Longrightarrow>
   \<exists>es. trace st' = trace st @ es \<and> visited es = [] \<and> opened es = []"
proof (induction views arbitrary: st)
  case Nil
  then show ?case by simp
next
  case (Cons view views)
  obtain r1 st1 where pv: "process_view w a base trial data view st = (r1, st1)"
    by (cases "process_view w a base trial data view st") auto
  from process_view_trace[OF pv] obtain es1 where
    e1: "trace st1 = trace st @ es1" "visited es1 = []" "opened es1 = []" by auto
  show ?case
  proof (cases r1)
    case (Inl e)
    with Cons.prems pv e1 show ?thesis by auto
  next
    case (Inr u)
    with Cons.prems pv have "views_loop w a base trial data views st1 = (r, st')" by simp
    from Cons.IH[OF this] e1 show ?thesis by auto
  qed
qed

lemma trials_loop_trace:
  "trials_loop w a base file trials st = (r, st') \<Longrightarrow>
   \<exists>k. visited (trace st') = visited (trace st) @ take k trials \<and>
       opened (trace st') = opened (trace st)"
proof (induction trials arbitrary: st)
  case Nil
  then show ?case by simp
next
  case (Cons trial trials)
  let ?st0 = "log (Visit trial) st"
  have v0: "visited (trace ?st0) = visited (trace st) @ [trial]"
    and o0: "opened (trace ?st0) = opened (trace st)" by simp_all
  have one: "\<exists>k. visited (trace s) = visited (trace st) @ take k (trial # trials) \<and>
       opened (trace s) = opened (trace st)"
    if "visited (trace s) = visited (trace ?st0)" "opened (trace s) = opened (trace ?st0)" for s
    using that v0 o0 by (intro exI[of _ 1]) simp
  have more: "\<exists>k. visited (trace st') = visited (trace st) @ take k (trial # trials) \<and>
       opened (trace st') = opened (trace st)"
    if "trials_loop w a base file trials s = (r, st')"
      "visited (trace s) = visited (trace ?st0)" "opened (trace s) = opened (trace ?st0)" for s
  proof -
    from Cons.IH[OF that(1)] obtain k where
      "visited (trace st') = visited (trace s) @ take k trials" "opened (trace st') = opened (trace s)"
      by auto
    with that v0 o0 show ?thesis by (intro exI[of _ "Suc k"]) simp
  qed
  show ?case
  proof (cases "map_of file trial")
    case None
    with Cons.prems show ?thesis using one[of ?st0] by (auto simp: Let_def)
  next
    case (Some g)
    show ?thesis
    proof (cases g)
      case None
      with Some Cons.prems show ?thesis using more[of ?st0] by (auto simp: Let_def)
    next
      case (Some data)
      obtain r1 st1 where vl: "views_loop w a base trial data rgb_views ?st0 = (r1, st1)"
        by (cases "views_loop w a base trial data rgb_views ?st0") auto
      from views_loop_trace[OF vl] have
        e1: "visited (trace st1) = visited (trace ?st0)" "opened (trace st1) = opened (trace ?st0)"
        by auto
      show ?thesis
      proof (cases r1)
        case (Inl e)
        with Some \<open>map_of file trial = Some g\<close> vl Cons.prems e1 show ?thesis
          using one[of st1] by (auto simp: Let_def)
      next
        case (Inr u)
        show ?thesis
        proof (cases "all_done a rgb_views st1")
          case (Inl e)
          with Inr Some \<open>map_of file trial = Some g\<close> vl Cons.prems e1 show ?thesis
            using one[of st1] by (auto simp: Let_def)
        next
          case (Inr b)
          show ?thesis
          proof (cases b)
            case True
            with Inr \<open>r1 = Inr u\<close> Some \<open>map_of file trial = Some g\<close> vl Cons.prems e1 show ?thesis
              using one[of "log PrintAllReached st1"] by (auto simp: Let_def)
          next
            case False
            with Inr \<open>r1 = Inr u\<close> Some \<open>map_of file trial = Some g\<close> vl Cons.prems
            have "trials_loop w a base file trials st1 = (r, st')" by (auto simp: Let_def)
            from more[OF this e1] show ?thesis .
          qed
        qed
      qed
    qed
  qed
qed

section \<open>The order of the trials\<close>









lemma walk_file_trace:
  assumes "walk_file w a p st = (r, st')"
  shows "opened (trace st') = opened (trace st) @ [p]"
    and "h5py_File w p = Inr file \<Longrightarrow> sorted_trials (map fst file) = Inr trials \<Longrightarrow>
         \<exists>k. visited (trace st') = visited (trace st) @ take k trials"
proof -
  show "opened (trace st') = opened (trace st) @ [p]"
    using assms trials_loop_trace[of w a _ _ _ "log (Opened p) st" r st']
    by (auto simp: walk_file_def Let_def split: sum.splits)
  show "\<exists>k. visited (trace st') = visited (trace st) @ take k trials"
    if "h5py_File w p = Inr file" "sorted_trials (map fst file) = Inr trials"
    using assms that trials_loop_trace[of w a _ "file" trials "log (Opened p) st" r st']
    by (auto simp: walk_file_def Let_def)
qed





section \<open>Early stop, file-level failures and the driver\<close>

lemma trials_loop_Cons:
  "trials_loop w a base file (trial # trials) st =
    (case map_of file trial of
       None \<Rightarrow> (Inl KeyError, log (Visit trial) st)
     | Some None \<Rightarrow> trials_loop w a base file trials (log (Visit trial) st)
     | Some (Some data) \<Rightarrow>
        (case views_loop w a base trial data rgb_views (log (Visit trial) st) of
           (Inl e, st1) \<Rightarrow> (Inl e, st1)
         | (Inr u, st1) \<Rightarrow>
            (case all_done a rgb_views st1 of
               Inl e \<Rightarrow> (Inl e, st1)
             | Inr True \<Rightarrow> (Inr False, log PrintAllReached st1)
             | Inr False \<Rightarrow> trials_loop w a base file trials st1)))"
  by (simp add: Let_def)

lemma trials_loop_append:
  "trials_loop w a base file (pre @ trials) st =
    (case trials_loop w a base file pre st of
       (Inr True, st1) \<Rightarrow> trials_loop w a base file trials st1
     | other \<Rightarrow> other)"
proof (induction pre arbitrary: st)
  case Nil
  show ?case by simp
next
  case (Cons t pre)
  show ?case
    unfolding append_Cons trials_loop_Cons
    by (auto simp: Cons.IH split: option.splits prod.splits sum.splits bool.splits)
qed

lemma trials_loop_completed:
  "trials_loop w a base file trials st = (Inr True, st') \<Longrightarrow>
   visited (trace st') = visited (trace st) @ trials"
proof (induction trials arbitrary: st)
  case Nil
  then show ?case by simp
next
  case (Cons trial trials)
  let ?st0 = "log (Visit trial) st"
  show ?case
  proof (cases "map_of file trial")
    case None
    with Cons.prems show ?thesis by (simp add: trials_loop_Cons)
  next
    case (Some g)
    show ?thesis
    proof (cases g)
      case None
      with Some Cons.prems have "trials_loop w a base file trials ?st0 = (Inr True, st')"
        by (simp add: trials_loop_Cons)
      from Cons.IH[OF this] show ?thesis by simp
    next
      case (Some data)
      obtain r1 st1 where vl: "views_loop w a base trial data rgb_views ?st0 = (r1, st1)"
        by (cases "views_loop w a base trial data rgb_views ?st0") auto
      from views_loop_trace[OF vl] have e1: "visited (trace st1) = visited (trace ?st0)" by auto
      from Cons.prems Some \<open>map_of file trial = Some g\<close> vl
      have "trials_loop w a base file trials st1 = (Inr True, st')"
        unfolding trials_loop_Cons by (auto split: sum.splits bool.splits)
      from Cons.IH[OF this] e1 show ?thesis by simp
    qed
  qed
qed

lemma view_names:
  "view_name_of ''rgb_left'' = Inr ''left''" "view_name_of ''rgb_right'' = Inr ''right''"
  "view_name_of ''rgb_top'' = Inr ''top''" "view_name_of ''rgb_wrist'' = Inr ''wrist''"
  by (simp_all add: view_name_of_def)

lemma all_done_saturated: "saturated a st \<Longrightarrow> all_done a rgb_views st = Inr True"
  by (auto simp: saturated_def rgb_views_def view_dirs_def view_names listdir_def
           split: option.splits)

lemma process_h5_file_opened:
  "opened (trace (snd (process_h5_file w a p st))) = opened (trace st) @ [p]"
proof -
  obtain r st1 where wf: "walk_file w a p st = (r, st1)" by (cases "walk_file w a p st") auto
  from walk_file_trace(1)[OF wf] wf show ?thesis
    by (cases r) (auto simp: process_h5_file_def)
qed

lemma files_loop_Cons:
  "files_loop w a (p # ps) st =
    (if fst (process_h5_file w a p st) then files_loop w a ps (snd (process_h5_file w a p st))
     else snd (process_h5_file w a p st))"
  by (simp split: prod.splits)

declare files_loop.simps(2) [simp del]

lemma files_loop_opened:
  "\<exists>k. opened (trace (files_loop w a ps st)) = opened (trace st) @ take k ps"
proof (induction ps arbitrary: st)
  case Nil
  show ?case by simp
next
  case (Cons p ps)
  show ?case
  proof (cases "fst (process_h5_file w a p st)")
    case True
    from Cons.IH[of "snd (process_h5_file w a p st)"] obtain k where
      "opened (trace (files_loop w a ps (snd (process_h5_file w a p st))))
        = opened (trace (snd (process_h5_file w a p st))) @ take k ps" by auto
    with True show ?thesis
      by (intro exI[of _ "Suc k"]) (simp add: files_loop_Cons process_h5_file_opened)
  next
    case False
    then show ?thesis
      by (intro exI[of _ 1]) (simp add: files_loop_Cons process_h5_file_opened)
  qed
qed

lemma files_loop_opens_first:
  "\<exists>tl. opened (trace (files_loop w a (p # ps) st)) = opened (trace st) @ p # tl"
  using files_loop_opened[of w a ps "snd (process_h5_file w a p st)"]
  by (auto simp: files_loop_Cons process_h5_file_opened)

text \<open>
  C3. When the walker has come through the trials before \<open>trial\<close>, the view loop of
  \<open>trial\<close> ends without an exception and every one of the four view folders then lists at
  least \<open>2 * max_pairs\<close> files, the walker returns \<open>False\<close> with no further trial visited,
  and the driver's loop over the files ends there: no further file is opened. (A trial
  without a \<open>data\<close> group is passed over before the check, so the check belongs to trials
  that have one.)
\<close>

theorem saturation_stops_walker_and_driver:
  assumes "h5py_File w h5_path = Inr file"
    and "sorted_trials (map fst file) = Inr (pre @ trial # rest)"
    and "trials_loop w a (str_replace ''.h5'' [] (basename h5_path)) file pre
           (log (Opened h5_path) st) = (Inr True, s0)"
    and "map_of file trial = Some (Some data)"
    and "views_loop w a (str_replace ''.h5'' [] (basename h5_path)) trial data rgb_views
           (log (Visit trial) s0) = (Inr (), s1)"
    and "saturated a s1"
  shows "process_h5_file w a h5_path st = (False, log PrintAllReached s1)
       \<and> files_loop w a (h5_path # h5_files) st = log PrintAllReached s1
       \<and> visited (trace (log PrintAllReached s1)) = visited (trace st) @ pre @ [trial]
       \<and> opened (trace (log PrintAllReached s1)) = opened (trace st) @ [h5_path]"
proof -
  let ?base = "str_replace ''.h5'' [] (basename h5_path)"
  have one: "trials_loop w a ?base file (trial # rest) s0 = (Inr False, log PrintAllReached s1)"
    using assms(4,5) all_done_saturated[OF assms(6)] by (simp add: trials_loop_Cons)
  have "trials_loop w a ?base file (pre @ trial # rest) (log (Opened h5_path) st)
        = (Inr False, log PrintAllReached s1)"
    using assms(3) one by (simp add: trials_loop_append)
  then have wf: "walk_file w a h5_path st = (Inr False, log PrintAllReached s1)"
    using assms(1,2) by (simp add: walk_file_def Let_def)
  then have p: "process_h5_file w a h5_path st = (False, log PrintAllReached s1)"
    by (simp add: process_h5_file_def)
  have v0: "visited (trace s0) = visited (trace st) @ pre"
    using trials_loop_completed[OF assms(3)] by simp
  have v1: "visited (trace s1) = visited (trace s0) @ [trial]"
    using views_loop_trace[OF assms(5)] by auto
  have o: "opened (trace (log PrintAllReached s1)) = opened (trace st) @ [h5_path]"
    using walk_file_trace(1)[OF wf] .
  show ?thesis using p v0 v1 o by (simp add: files_loop_Cons)
qed

theorem saturation_stops_walker_and_driver_witness:
  "fst (process_h5_file demo_world (demo_args 1) ''d/f.h5'' fresh_state) = False
   \<and> visited (trace (snd (process_h5_file demo_world (demo_args 1) ''d/f.h5'' fresh_state)))
       = [''Trial1'']
   \<and> opened (trace (files_loop demo_world (demo_args 1) [''d/f.h5'', ''d/g.h5''] fresh_state))
       = [''d/f.h5'']"
proof -
  define s0 where "s0 = log (Opened ''d/f.h5'') fresh_state"
  define s1 where "s1 = snd (views_loop demo_world (demo_args 1) ''f'' ''Trial1'' four_views
                               rgb_views (log (Visit ''Trial1'') s0))"
  have o: "h5py_File demo_world ''d/f.h5'' = Inr demo_file" by (simp add: demo_world_def)
  have srt: "sorted_trials (map fst demo_file) = Inr ([] @ ''Trial1'' # [''Trial2'', ''Trial10''])"
    by code_simp
  have base: "str_replace ''.h5'' [] (basename ''d/f.h5'') = ''f''" by code_simp
  have pre: "trials_loop demo_world (demo_args 1) (str_replace ''.h5'' [] (basename ''d/f.h5''))
               demo_file [] (log (Opened ''d/f.h5'') fresh_state) = (Inr True, s0)"
    by (simp add: s0_def)
  have m: "map_of demo_file ''Trial1'' = Some (Some four_views)" by (simp add: demo_file_def)
  have "fst (views_loop demo_world (demo_args 1) ''f'' ''Trial1'' four_views rgb_views
               (log (Visit ''Trial1'') (log (Opened ''d/f.h5'') fresh_state))) = Inr ()"
    by code_simp
  then have v: "views_loop demo_world (demo_args 1) (str_replace ''.h5'' [] (basename ''d/f.h5''))
               ''Trial1'' four_views rgb_views (log (Visit ''Trial1'') s0) = (Inr (), s1)"
    unfolding base s1_def s0_def by (simp add: prod_eq_iff)
  have "saturated (demo_args 1)
          (snd (views_loop demo_world (demo_args 1) ''f'' ''Trial1'' four_views rgb_views
                  (log (Visit ''Trial1'') (log (Opened ''d/f.h5'') fresh_state))))"
    by code_simp
  then have sat: "saturated (demo_args 1) s1" unfolding s1_def s0_def .
  have t: "visited (trace fresh_state) = []" "opened (trace fresh_state) = []"
    by (simp_all add: fresh_state_def)
  from saturation_stops_walker_and_driver[OF o srt pre m v sat, of "[''d/g.h5'']"]
  show ?thesis by (simp add: t)
qed

lemma walk_file_open_fails:
  "h5py_File w p = Inl e \<Longrightarrow> walk_file w a p st = (Inl e, log (Opened p) st)"
  by (simp add: walk_file_def)

text \<open>
  C7. When an exception escapes the body of the \<open>try\<close> of \<open>process_h5_file\<close> (the opening
  of the container, the sorting of the keys or the loop over the trials), the handler
  prints the error and the traceback and the call returns \<open>True\<close>; the driver goes on and
  opens the next file.
\<close>

theorem escaped_exception_returns_continue:
  assumes "walk_file w a h5_path st = (Inl e, st1)"
  shows "process_h5_file w a h5_path st
           = (True, log PrintTraceback (log (PrintErrorProcessing h5_path e) st1))
       \<and> files_loop w a (h5_path # h5_files) st
           = files_loop w a h5_files (log PrintTraceback (log (PrintErrorProcessing h5_path e) st1))
       \<and> (\<exists>tl. opened (trace (files_loop w a (h5_path # next_file # h5_files) st))
                = opened (trace st) @ h5_path # next_file # tl)"
proof -
  let ?st2 = "log PrintTraceback (log (PrintErrorProcessing h5_path e) st1)"
  have p: "process_h5_file w a h5_path st = (True, ?st2)"
    using assms by (simp add: process_h5_file_def)
  have o: "opened (trace ?st2) = opened (trace st) @ [h5_path]"
    using walk_file_trace(1)[OF assms] by simp
  from files_loop_opens_first[of w a next_file h5_files ?st2] obtain tl where
    "opened (trace (files_loop w a (next_file # h5_files) ?st2)) = opened (trace ?st2) @ next_file # tl"
    by auto
  with p o show ?thesis by (simp add: files_loop_Cons)
qed

theorem escaped_exception_returns_continue_witness:
  "process_h5_file demo_world (demo_args 1) ''d/g.h5'' fresh_state
     = (True, log PrintTraceback (log (PrintErrorProcessing ''d/g.h5'' OSError)
                (log (Opened ''d/g.h5'') fresh_state)))
   \<and> (\<exists>tl. opened (trace (files_loop demo_world (demo_args 1) [''d/g.h5'', ''d/f.h5''] fresh_state))
            = ''d/g.h5'' # ''d/f.h5'' # tl)"
proof -
  have "h5py_File demo_world ''d/g.h5'' = Inl OSError" by (simp add: demo_world_def)
  then have w: "walk_file demo_world (demo_args 1) ''d/g.h5'' fresh_state
                  = (Inl OSError, log (Opened ''d/g.h5'') fresh_state)"
    by (rule walk_file_open_fails)
  have t: "opened (trace fresh_state) = []" by (simp add: fresh_state_def)
  from escaped_exception_returns_continue[OF w, where next_file = "''d/f.h5''" and h5_files = "[]"]
  show ?thesis by (simp add: t)
qed



section \<open>Lifting properties of one view step to whole runs\<close>





section \<open>The output tree: what a production step writes\<close>

lemma fs_write_file_cong:
  "fs s1 = fs s2 \<Longrightarrow> fs (write_file d n s1) = fs (write_file d n s2)"
  by (simp add: fs_write_file split: option.splits)

lemma fs_write_file_log [simp]: "fs (write_file d n (log e st)) = fs (write_file d n st)"
  by (rule fs_write_file_cong) simp
















lemma dir_count_log [simp]: "dir_count (log e st) d = dir_count st d"
  by (simp add: dir_count_def)

lemma dir_count_ensure_dir [simp]: "dir_count (ensure_dir d' st) d = dir_count st d"
  by (simp add: dir_count_def fs_ensure_dir)











section \<open>Pairing of videos and metadata\<close>


lemma stem_of_append [simp]: "stem_of ext (b @ ext) = b"
  by (simp add: stem_of_def)




lemma dir_paired_log [simp]: "dir_paired (log e st) d = dir_paired st d"
  by (simp add: dir_paired_def)

lemma dir_paired_ensure_dir [simp]: "dir_paired (ensure_dir d' st) d = dir_paired st d"
  by (auto simp: dir_paired_def fs_ensure_dir paired_def)









section \<open>The order of sampling and quota check, and the scaling of frames\<close>

lemma ensure_dir_existing: "fs st d = Some l \<Longrightarrow> ensure_dir d st = st"
  by (simp add: ensure_dir_def)

text \<open>
  C6, as the code has it. For a view that is present and passes the shape check, and
  whose folder already lists at least \<open>2 * max_pairs\<close> files, the walker produces nothing:
  it prints the skip message, calls no writer and leaves the output tree as it was. But
  the indices are computed and the frames selected before the folder is listed: the trace
  holds the sampling first, and an exception of the sampling is raised although the folder
  is full.
\<close>

theorem quota_check_follows_sampling:
  assumes "data view = Some (Inr frames)" and "\<not> skip_stream a frames"
    and "view_name_of view = Inr vn"
    and "fs st (join (output_folder a) vn) = Some l"
    and "2 * max_pairs a \<le> int (length l)"
  shows "(\<forall>indices sel. select_frames a frames = Inr (indices, sel) \<longrightarrow>
            process_view w a base trial data view st
              = (Inr (), log (PrintSkipping vn (int (length l) div 2))
                           (log (Sampled trial view indices) st)))
       \<and> (\<forall>e. select_frames a frames = Inl e \<longrightarrow>
            process_view w a base trial data view st = (Inl e, st))"
proof -
  have d: "fs (log ev st) (join (output_folder a) vn) = Some l" for ev
    using assms(4) by simp
  have sv: "store_view w a base trial view sel (log ev st)
            = (Inr (), log (PrintSkipping vn (int (length l) div 2)) (log ev st))" for sel ev
    using assms(3,5) d[of ev]
    by (simp add: store_view_def Let_def ensure_dir_existing[OF d] listdir_def)
  show ?thesis
    using assms(1,2) sv by (simp add: process_view_def)
qed


theorem quota_check_follows_sampling_witness:
  "process_view demo_world (demo_args 1) ''f'' ''Trial10'' four_views ''rgb_top'' full_state
     = (Inr (), log (PrintSkipping ''top'' 1) (log (Sampled ''Trial10'' ''rgb_top'' [0, 1]) full_state))
   \<and> process_view demo_world ((demo_args 1)\<lparr>frame_count := - 1\<rparr>) ''f'' ''Trial10'' four_views
        ''rgb_top'' full_state
     = (Inl ValueError, full_state)"
proof -
  have d: "four_views ''rgb_top'' = Some (Inr (clip Float64 (1 / 2)))"
    by (simp add: four_views_def)
  have k1: "\<not> skip_stream (demo_args 1) (clip Float64 (1 / 2))" by code_simp
  have k2: "\<not> skip_stream ((demo_args 1)\<lparr>frame_count := - 1\<rparr>) (clip Float64 (1 / 2))"
    by code_simp
  have v: "view_name_of ''rgb_top'' = Inr ''top''" by (rule view_names)
  have f1: "fs full_state (join (output_folder (demo_args 1)) ''top'') = Some [''a.mp4'', ''a.json'']"
    by code_simp
  have f2: "fs full_state (join (output_folder ((demo_args 1)\<lparr>frame_count := - 1\<rparr>)) ''top'')
            = Some [''a.mp4'', ''a.json'']"
    by code_simp
  have q1: "2 * max_pairs (demo_args 1) \<le> int (length [''a.mp4'', ''a.json''])"
    by (simp add: demo_args_def)
  have q2: "2 * max_pairs ((demo_args 1)\<lparr>frame_count := - 1\<rparr>) \<le> int (length [''a.mp4'', ''a.json''])"
    by (simp add: demo_args_def)
  have s1: "select_frames (demo_args 1) (clip Float64 (1 / 2)) = Inr ([0, 1], clip Float64 (1 / 2))"
    by code_simp
  have s2: "select_frames ((demo_args 1)\<lparr>frame_count := - 1\<rparr>) (clip Float64 (1 / 2))
            = Inl ValueError"
    by code_simp
  from quota_check_follows_sampling[where data = four_views and view = "''rgb_top''"
         and w = demo_world and base = "''f''" and trial = "''Trial10''", OF d k1 v f1 q1] s1
       quota_check_follows_sampling[where data = four_views and view = "''rgb_top''"
         and w = demo_world and base = "''f''" and trial = "''Trial10''", OF d k2 v f2 q2] s2
  show ?thesis by simp
qed

text \<open>
  The sampler is consulted for a view whose folder is full: with one pair in the folder
  and \<open>max_pairs = 1\<close>, the step computes the indices \<open>[0, 1]\<close> and then skips.
\<close>

theorem sampled_before_quota_check_counterexample:
  "2 * max_pairs (demo_args 1) \<le> int (dir_count full_state ''out/top'')
   \<and> trace (snd (process_view demo_world (demo_args 1) ''f'' ''Trial10'' four_views ''rgb_top''
                    full_state))
       = [Sampled ''Trial10'' ''rgb_top'' [0, 1], PrintSkipping ''top'' 1]"
  by code_simp


section \<open>Failures of the video materializer\<close>








section \<open>The quota of a view folder\<close>






lemma dir_clean_log [simp]: "dir_clean (log e st) d = dir_clean st d"
  by (simp add: dir_clean_def)

lemma dir_clean_ensure_dir [simp]: "dir_clean (ensure_dir d' st) d = dir_clean st d"
  by (auto simp: dir_clean_def fs_ensure_dir clean_listing_def paired_def)









section \<open>The driver's loop inside \<open>process_tarfile\<close>\<close>

text \<open>
  \<open>process_tarfile\<close> runs \<open>files_loop\<close> over the files that were found, in the order in
  which they were found, and removes the extracted folder and the archive afterwards,
  whatever the loop did.
\<close>

lemma process_tarfile_runs_files_loop:
  assumes "extract_tarfile w tar_path = Inr (Some extracted_dir)"
    and "find_h5_files w (join ''.'' extracted_dir) = h5_files" and "h5_files \<noteq> []"
  shows "\<exists>st0. fs st0 = fs (foldl (\<lambda>s view_dir. ensure_dir (join (output_folder a) view_dir) s)
                             (ensure_dir (output_folder a) st) view_dirs)
            \<and> opened (trace st0) = opened (trace st)
            \<and> process_tarfile w a tar_path st
                = (Inr (), log (Removed tar_path) (log (Removed (join ''.'' extracted_dir))
                             (files_loop w a h5_files st0)))"
proof -
  let ?st2 = "foldl (\<lambda>s view_dir. ensure_dir (join (output_folder a) view_dir) s)
                (ensure_dir (output_folder a) st) view_dirs"
  let ?st0 = "log (PrintFound (length h5_files)) (log (PrintExtracting tar_path) ?st2)"
  have "trace ?st2 = trace st" by (simp add: view_dirs_def)
  then have "opened (trace ?st0) = opened (trace st)" by simp
  moreover have "process_tarfile w a tar_path st
      = (Inr (), log (Removed tar_path) (log (Removed (join ''.'' extracted_dir))
                   (files_loop w a h5_files ?st0)))"
    using assms by (simp add: process_tarfile_def Let_def)
  moreover have "fs ?st0 = fs ?st2" by simp
  ultimately show ?thesis by blast
qed

end
